theory Spec2Isabelle
  imports Main "HOL-Library.Word"
begin

section \<open>FSeam: the mock registry of \<^verbatim>\<open>FSeam/MockVerifier.hpp\<close>\<close>

text \<open>
  The header defines three classes: \<^verbatim>\<open>MethodCallVerifier\<close> (one ledger entry),
  \<^verbatim>\<open>MockClassVerifier\<close> (the ledger of one mocked identity) and \<^verbatim>\<open>MockVerifier\<close>
  (the process-wide registry). Ledger entries and class verifiers are held through
  \<^verbatim>\<open>std::shared_ptr\<close>, and the lambda built by \<^verbatim>\<open>dupeMethod\<close> captures such a pointer,
  so both live in an explicit store here: a handle is an address, an object is what the
  store holds at that address, and \<^verbatim>\<open>std::make_shared\<close> takes the next unused address.
\<close>

subsection \<open>Data model\<close>

type_synonym addr = nat

text \<open>The \<^verbatim>\<open>void*\<close> argument of a handler and the \<^verbatim>\<open>const void*\<close> key of the registry are
  opaque pointer values; a \<^verbatim>\<open>std::any\<close> payload is opaque as well.\<close>

type_synonym voidptr = nat
type_synonym any = nat

text \<open>
  A \<^verbatim>\<open>std::function<void(void*)>\<close> is empty, or a callable supplied by the test (identified
  by a number; calling it is logged in \<open>calls\<close> below), or the closure
  \<^verbatim>\<open>[handler, methodCallVerifier](void *data){...}\<close> of \<^verbatim>\<open>dupeMethod\<close>, which holds a
  copy of \<^verbatim>\<open>handler\<close> and a copy of the shared pointer \<^verbatim>\<open>methodCallVerifier\<close>.
\<close>

text \<open>
  What a callable of the test does is not part of the header. Here it does one thing:
  it records that it was called, and with which argument; it does not call back into
  the registry.
\<close>

datatype handler_fn =
    Empty
  | User nat
  | Closure handler_fn addr

record MethodCallVerifier =
  methodName :: string
  called :: nat
  handler :: handler_fn
  calledData :: "any list"

text \<open>\<^verbatim>\<open>_called\<close> is a \<^verbatim>\<open>std::size_t\<close> that only ever receives \<^verbatim>\<open>_calledData.size()\<close>, which
  never exceeds \<^verbatim>\<open>max_size()\<close>; no arithmetic is done on it, so it is a \<open>nat\<close> here. The one
  place where a conversion happens, the comparison with the \<^verbatim>\<open>int\<close> argument of \<^verbatim>\<open>verify\<close>,
  is written out in \<open>size_t_of_int\<close>.\<close>

definition default_MethodCallVerifier :: MethodCallVerifier where
  "default_MethodCallVerifier =
     \<lparr>methodName = [], called = 0, handler = Empty, calledData = []\<rparr>"

record MockClassVerifier =
  className :: string
  verifiers :: "string \<rightharpoonup> addr"

record MockVerifier =
  mockedClass :: "voidptr \<rightharpoonup> addr"
  defaultMockedClass :: "string \<rightharpoonup> addr"

text \<open>What is inserted into a \<^verbatim>\<open>std::ostream\<close> with \<^verbatim>\<open><<\<close>.\<close>

datatype tok = Str string | IntTok int | SizeTok nat | Endl

datatype error = OutOfRange | BadFunctionCall

text \<open>
  The state of the process: the two typed stores with their allocation counters, the
  static \<^verbatim>\<open>inst\<close> of \<^verbatim>\<open>MockVerifier\<close> (\<open>None\<close> is \<^verbatim>\<open>nullptr\<close>), what has been written to
  \<^verbatim>\<open>std::cout\<close> and \<^verbatim>\<open>std::cerr\<close>, and the log of the calls made to the test's callables
  (which callable, with which argument, in call order).
\<close>

record world =
  mcv_heap :: "addr \<Rightarrow> MethodCallVerifier"
  mcv_next :: addr
  cls_heap :: "addr \<Rightarrow> MockClassVerifier"
  cls_next :: addr
  inst :: "MockVerifier option"
  cout :: "tok list"
  cerr :: "tok list"
  calls :: "(nat \<times> voidptr) list"

definition init_world :: world where
  "init_world =
     \<lparr>mcv_heap = (\<lambda>_. default_MethodCallVerifier), mcv_next = 0,
      cls_heap = (\<lambda>_. \<lparr>className = [], verifiers = Map.empty\<rparr>), cls_next = 0,
      inst = None, cout = [], cerr = [], calls = []\<rparr>"

subsection \<open>Library operations\<close>

text \<open>\<^verbatim>\<open>std::make_shared<MethodCallVerifier>()\<close>: a new default-initialised entry.\<close>

definition make_shared_MethodCallVerifier :: "world \<Rightarrow> addr \<times> world" where
  "make_shared_MethodCallVerifier w =
     (mcv_next w,
      w\<lparr>mcv_heap := (mcv_heap w)(mcv_next w := default_MethodCallVerifier),
        mcv_next := Suc (mcv_next w)\<rparr>)"

text \<open>\<^verbatim>\<open>std::make_shared<MockClassVerifier>(className)\<close>, running the constructor
  \<^verbatim>\<open>MockClassVerifier(std::string className) : _className(className) {}\<close>.\<close>

definition make_shared_MockClassVerifier :: "string \<Rightarrow> world \<Rightarrow> addr \<times> world" where
  "make_shared_MockClassVerifier cn w =
     (cls_next w,
      w\<lparr>cls_heap := (cls_heap w)(cls_next w := \<lparr>className = cn, verifiers = Map.empty\<rparr>),
        cls_next := Suc (cls_next w)\<rparr>)"

text \<open>\<^verbatim>\<open>std::map::at\<close> throws \<^verbatim>\<open>std::out_of_range\<close> on a missing key.\<close>

definition at_map :: "('k \<rightharpoonup> 'v) \<Rightarrow> 'k \<Rightarrow> error + 'v" where
  "at_map m k = (case m k of None \<Rightarrow> Inl OutOfRange | Some v \<Rightarrow> Inr v)"

text \<open>The conversion of an \<^verbatim>\<open>int\<close> to \<^verbatim>\<open>std::size_t\<close> (64 bits) that the comparison
  \<^verbatim>\<open>_called == times\<close> performs: the value modulo \<open>2 ^ 64\<close>.\<close>

definition size_t_of_int :: "32 word \<Rightarrow> nat" where
  "size_t_of_int ntimes = nat (sint ntimes mod 2 ^ 64)"

subsection \<open>Calling a handler\<close>

text \<open>
  Calling an empty \<^verbatim>\<open>std::function\<close> throws \<^verbatim>\<open>std::bad_function_call\<close>. A callable of the
  test is logged. The closure of \<^verbatim>\<open>dupeMethod\<close> runs
  \<^verbatim>\<open>methodCallVerifier->_handler(data); handler(data);\<close>: it reads the \<^verbatim>\<open>_handler\<close> field
  of the entry it points to at the time of the call, calls it, then calls its own copy of
  \<^verbatim>\<open>handler\<close>. Nothing bounds the depth of these calls, so the result is an \<open>option\<close>:
  \<open>None\<close> is a call that never returns.
\<close>

partial_function (option) call_handler ::
  "handler_fn \<Rightarrow> voidptr \<Rightarrow> world \<Rightarrow> (error + world) option"
where
  "call_handler f data w =
     (case f of
        Empty \<Rightarrow> Some (Inl BadFunctionCall)
      | User i \<Rightarrow> Some (Inr (w\<lparr>calls := calls w @ [(i, data)]\<rparr>))
      | Closure h p \<Rightarrow>
          Option.bind (call_handler (handler (mcv_heap w p)) data w)
            (\<lambda>r. case r of
                    Inl e \<Rightarrow> Some (Inl e)
                  | Inr w' \<Rightarrow> call_handler h data w'))"

subsection \<open>MockClassVerifier\<close>

text \<open>The methods take the address \<open>this\<close> of the \<^verbatim>\<open>MockClassVerifier\<close> they are called on.\<close>

definition invokeDupedMethod ::
  "addr \<Rightarrow> string \<Rightarrow> voidptr \<Rightarrow> world \<Rightarrow> (error + world) option"
where
  "invokeDupedMethod this mName arg w =
     (let key = className (cls_heap w this) @ mName in
      if verifiers (cls_heap w this) key \<noteq> None then
        (case at_map (verifiers (cls_heap w this)) key of
           Inl e \<Rightarrow> Some (Inl e)
         | Inr p \<Rightarrow>
             (let dupedMethod = handler (mcv_heap w p) in
              if dupedMethod \<noteq> Empty then call_handler dupedMethod arg w
              else Some (Inr w)))
      else Some (Inr w))"

definition methodCall :: "addr \<Rightarrow> string \<Rightarrow> any \<Rightarrow> world \<Rightarrow> error + world" where
  "methodCall this mName callingInfo w =
     (let key = className (cls_heap w this) @ mName in
      case (if verifiers (cls_heap w this) key \<noteq> None
            then map_sum id (\<lambda>p. (p, w)) (at_map (verifiers (cls_heap w this)) key)
            else Inr (make_shared_MethodCallVerifier w)) of
        Inl e \<Rightarrow> Inl e
      | Inr (methodCallVerifier, w1) \<Rightarrow>
          (let e1 = (mcv_heap w1 methodCallVerifier)\<lparr>methodName := mName\<rparr>;
               e2 = e1\<lparr>calledData := calledData e1 @ [callingInfo]\<rparr>;
               e3 = e2\<lparr>called := length (calledData e2)\<rparr>;
               w2 = w1\<lparr>mcv_heap := (mcv_heap w1)(methodCallVerifier := e3)\<rparr>;
               c = cls_heap w2 this
           in Inr (w2\<lparr>cls_heap := (cls_heap w2)
                        (this := c\<lparr>verifiers := (verifiers c)(key \<mapsto> methodCallVerifier)\<rparr>)\<rparr>)))"

text \<open>
  \<^verbatim>\<open>dupeMethod\<close> first makes a new entry and drops it again when the key is found (the
  temporary is then destroyed, so only the branch that keeps it allocates here). The
  closure of the composing branch captures the pointer \<^verbatim>\<open>methodCallVerifier\<close>, not the
  handler stored so far, and is then stored into that same entry.
\<close>

definition dupeMethod ::
  "addr \<Rightarrow> string \<Rightarrow> handler_fn \<Rightarrow> bool \<Rightarrow> world \<Rightarrow> error + world"
where
  "dupeMethod this mName h isComposed w =
     (let key = className (cls_heap w this) @ mName in
      case (if verifiers (cls_heap w this) key \<noteq> None
            then map_sum id (\<lambda>p. (p, w)) (at_map (verifiers (cls_heap w this)) key)
            else Inr (make_shared_MethodCallVerifier w)) of
        Inl e \<Rightarrow> Inl e
      | Inr (methodCallVerifier, w1) \<Rightarrow>
          (let e1 = (mcv_heap w1 methodCallVerifier)\<lparr>methodName := mName\<rparr>;
               e2 = e1\<lparr>calledData := []\<rparr>;
               e3 = e2\<lparr>called := length (calledData e2)\<rparr>;
               e4 = (if isComposed \<and> handler e3 \<noteq> Empty
                     then e3\<lparr>handler := Closure h methodCallVerifier\<rparr>
                     else e3\<lparr>handler := h\<rparr>);
               w2 = w1\<lparr>mcv_heap := (mcv_heap w1)(methodCallVerifier := e4)\<rparr>;
               c = cls_heap w2 this
           in Inr (w2\<lparr>cls_heap := (cls_heap w2)
                        (this := c\<lparr>verifiers := (verifiers c)(key \<mapsto> methodCallVerifier)\<rparr>)\<rparr>)))"

text \<open>\<^verbatim>\<open>verify\<close> returns its boolean and writes its diagnostic to \<^verbatim>\<open>std::cout\<close>.\<close>

definition verify :: "addr \<Rightarrow> string \<Rightarrow> 32 word \<Rightarrow> world \<Rightarrow> error + bool \<times> world" where
  "verify this mName ntimes w =
     (let key = className (cls_heap w this) @ mName in
      if verifiers (cls_heap w this) key = None then
        (let w1 = (if 0 < sint ntimes
                   then w\<lparr>cout := cout w @
                          [Str ''Verify error for method '', Str key,
                           Str '', method never have been called while we expected '',
                           IntTok (sint ntimes), Str '' calls'', Endl]\<rparr>
                   else w)
         in Inr (ntimes = 0, w1))
      else
        (case at_map (verifiers (cls_heap w this)) key of
           Inl e \<Rightarrow> Inl e
         | Inr p \<Rightarrow>
             (let result = ((sint ntimes \<le> - 1 \<and> 0 < called (mcv_heap w p))
                            \<or> called (mcv_heap w p) = size_t_of_int ntimes);
                  w1 = (if \<not> result
                        then w\<lparr>cout := cout w @
                               [Str ''Verify error for method '', Str key,
                                Str '', method has been called '',
                                SizeTok (called (mcv_heap w p)), Str '' and not '',
                                IntTok (sint ntimes), Endl]\<rparr>
                        else w)
              in Inr (result, w1))))"

subsection \<open>MockVerifier\<close>

text \<open>
  The methods of \<^verbatim>\<open>MockVerifier\<close> take the registry \<open>this\<close> they are called on and return it
  updated, with the handle they return. \<^verbatim>\<open>TypeParseTraits<T>::ClassName\<close> is produced by the
  generator for each mocked type \<^verbatim>\<open>T\<close>; the template methods take it as the parameter \<open>cn\<close>.
\<close>

definition empty_MockVerifier :: MockVerifier where
  "empty_MockVerifier = \<lparr>mockedClass = Map.empty, defaultMockedClass = Map.empty\<rparr>"

text \<open>\<^verbatim>\<open>instance()\<close>: creates the registry when \<^verbatim>\<open>inst\<close> is null and returns \<^verbatim>\<open>*inst\<close>.\<close>

definition MockVerifier_instance :: "world \<Rightarrow> MockVerifier \<times> world" where
  "MockVerifier_instance w =
     (case inst w of
        None \<Rightarrow> (empty_MockVerifier, w\<lparr>inst := Some empty_MockVerifier\<rparr>)
      | Some mv \<Rightarrow> (mv, w))"

text \<open>\<^verbatim>\<open>cleanUp()\<close>: \<^verbatim>\<open>inst.reset()\<close>. The registry and its two maps are destroyed; objects
  that are no longer referenced stay in the store, where nothing reaches them.\<close>

definition cleanUp :: "world \<Rightarrow> world" where
  "cleanUp w = w\<lparr>inst := None\<rparr>"

definition isMockRegistered :: "MockVerifier \<Rightarrow> voidptr \<Rightarrow> bool" where
  "isMockRegistered this mockPtr \<longleftrightarrow> mockedClass this mockPtr \<noteq> None"

definition addMock ::
  "string \<Rightarrow> voidptr \<Rightarrow> MockVerifier \<Rightarrow> world \<Rightarrow> error + addr \<times> MockVerifier \<times> world"
where
  "addMock cn mockPtr this w =
     (let (c, w1) = make_shared_MockClassVerifier cn w;
          this1 = this\<lparr>mockedClass := (mockedClass this)(mockPtr \<mapsto> c)\<rparr>
      in map_sum id (\<lambda>r. (r, this1, w1)) (at_map (mockedClass this1) mockPtr))"

definition addDefaultMock ::
  "string \<Rightarrow> MockVerifier \<Rightarrow> world \<Rightarrow> error + addr \<times> MockVerifier \<times> world"
where
  "addDefaultMock cn this w =
     (let (c, w1) = make_shared_MockClassVerifier cn w;
          this1 = this\<lparr>defaultMockedClass := (defaultMockedClass this)(cn \<mapsto> c)\<rparr>
      in map_sum id (\<lambda>r. (r, this1, w1)) (at_map (defaultMockedClass this1) cn))"

definition getMock ::
  "string \<Rightarrow> voidptr \<Rightarrow> MockVerifier \<Rightarrow> world \<Rightarrow> error + addr \<times> MockVerifier \<times> world"
where
  "getMock cn mockPtr this w =
     (if \<not> isMockRegistered this mockPtr then addMock cn mockPtr this w
      else map_sum id (\<lambda>r. (r, this, w)) (at_map (mockedClass this) mockPtr))"

definition getDefaultMock ::
  "string \<Rightarrow> MockVerifier \<Rightarrow> world \<Rightarrow> error + addr \<times> MockVerifier \<times> world"
where
  "getDefaultMock classMockName this w =
     (if defaultMockedClass this classMockName = None
      then addDefaultMock classMockName this w
      else map_sum id (\<lambda>r. (r, this, w)) (at_map (defaultMockedClass this) classMockName))"

subsection \<open>Free functions\<close>

text \<open>\<^verbatim>\<open>get<T>(ptr)\<close> and \<^verbatim>\<open>getDefault<T>()\<close> work on the singleton: the registry they
  update is the one \<^verbatim>\<open>inst\<close> owns.\<close>

definition get :: "string \<Rightarrow> voidptr \<Rightarrow> world \<Rightarrow> error + addr \<times> world" where
  "get cn mockPtr w =
     (let (mv, w1) = MockVerifier_instance w in
      case getMock cn mockPtr mv w1 of
        Inl e \<Rightarrow> Inl e
      | Inr (c, mv', w2) \<Rightarrow> Inr (c, w2\<lparr>inst := Some mv'\<rparr>))"

definition getDefault :: "string \<Rightarrow> world \<Rightarrow> error + addr \<times> world" where
  "getDefault cn w =
     (let (mv, w1) = MockVerifier_instance w in
      case getDefaultMock cn mv w1 of
        Inl e \<Rightarrow> Inl e
      | Inr (c, mv', w2) \<Rightarrow> Inr (c, w2\<lparr>inst := Some mv'\<rparr>))"

subsection \<open>Notions used in the statements\<close>

text \<open>The key \<^verbatim>\<open>_className + methodName\<close> of a method, the entry the ledger holds for it, and
  the call count recorded for it (no entry: nothing recorded).\<close>

definition key_of :: "world \<Rightarrow> addr \<Rightarrow> string \<Rightarrow> string" where
  "key_of w this mName = className (cls_heap w this) @ mName"

definition entry_of :: "world \<Rightarrow> addr \<Rightarrow> string \<Rightarrow> addr option" where
  "entry_of w this mName = verifiers (cls_heap w this) (key_of w this mName)"

definition callCount :: "world \<Rightarrow> addr \<Rightarrow> string \<Rightarrow> nat" where
  "callCount w this mName =
     (case entry_of w this mName of None \<Rightarrow> 0 | Some p \<Rightarrow> called (mcv_heap w p))"

text \<open>A process that has constructed one \<^verbatim>\<open>MockClassVerifier("Foo")\<close> (at address 0) and
  nothing else, and the same after one \<^verbatim>\<open>methodCall("bar", 5)\<close>.\<close>

definition fresh_verifier :: world where
  "fresh_verifier = snd (make_shared_MockClassVerifier ''Foo'' init_world)"

definition one_call_world :: world where
  "one_call_world =
     (case methodCall 0 ''bar'' 5 fresh_verifier of Inl e \<Rightarrow> fresh_verifier | Inr w \<Rightarrow> w)"

text \<open>The composition scenario: \<^verbatim>\<open>dupeMethod("bar", S1)\<close>, then
  \<^verbatim>\<open>dupeMethod("bar", S2, true)\<close>, then \<^verbatim>\<open>invokeDupedMethod("bar", arg)\<close>, with the
  callables 1 and 2 for \<^verbatim>\<open>S1\<close> and \<^verbatim>\<open>S2\<close> and the argument 7.\<close>

definition compose_scenario :: "(error + world) option" where
  "compose_scenario =
     (case dupeMethod 0 ''bar'' (User 1) False fresh_verifier of
        Inl e \<Rightarrow> Some (Inl e)
      | Inr w1 \<Rightarrow>
          (case dupeMethod 0 ''bar'' (User 2) True w1 of
             Inl e \<Rightarrow> Some (Inl e)
           | Inr w2 \<Rightarrow> invokeDupedMethod 0 ''bar'' 7 w2))"

subsection \<open>Histories of ledger operations\<close>

text \<open>The calls a test and the duped classes make on one \<^verbatim>\<open>MockClassVerifier\<close>, and what
  running them one after the other does; an exception ends the run.\<close>

datatype ledger_op =
    MethodCall string any
  | DupeMethod string handler_fn bool
  | Verify string "32 word"

fun apply_op :: "addr \<Rightarrow> ledger_op \<Rightarrow> world \<Rightarrow> error + world" where
  "apply_op this (MethodCall mName callingInfo) w = methodCall this mName callingInfo w"
| "apply_op this (DupeMethod mName h isComposed) w = dupeMethod this mName h isComposed w"
| "apply_op this (Verify mName ntimes) w = map_sum id snd (verify this mName ntimes w)"

fun run_ops :: "addr \<Rightarrow> ledger_op list \<Rightarrow> world \<Rightarrow> error + world" where
  "run_ops this [] w = Inr w"
| "run_ops this (x # xs) w =
     (case apply_op this x w of Inl e \<Rightarrow> Inl e | Inr w' \<Rightarrow> run_ops this xs w')"

text \<open>
  In the words of the specification: the number of \<^verbatim>\<open>methodCall\<close> invocations recorded for
  a method since the last \<^verbatim>\<open>dupeMethod\<close> on it, or since the creation of the verifier when
  there was none. Read from the history: the operations after the last reset (the
  longest reset-free prefix of the reversed history), of which the calls on the method
  are counted.
\<close>

fun is_call :: "string \<Rightarrow> ledger_op \<Rightarrow> bool" where
  "is_call m (MethodCall m' _) = (m' = m)"
| "is_call m (DupeMethod _ _ _) = False"
| "is_call m (Verify _ _) = False"

fun is_reset :: "string \<Rightarrow> ledger_op \<Rightarrow> bool" where
  "is_reset m (MethodCall _ _) = False"
| "is_reset m (DupeMethod m' _ _) = (m' = m)"
| "is_reset m (Verify _ _) = False"

definition calls_since_reset :: "string \<Rightarrow> ledger_op list \<Rightarrow> nat" where
  "calls_since_reset m ops =
     length (filter (is_call m) (takeWhile (\<lambda>x. \<not> is_reset m x) (rev ops)))"

definition count_step :: "string \<Rightarrow> nat \<Rightarrow> ledger_op \<Rightarrow> nat" where
  "count_step m n x = (if is_reset m x then 0 else if is_call m x then Suc n else n)"

text \<open>The entry \<^verbatim>\<open>methodCall\<close> and \<^verbatim>\<open>dupeMethod\<close> work on: the one the ledger holds for the
  key, or the new one.\<close>

definition target :: "world \<Rightarrow> addr \<Rightarrow> string \<Rightarrow> addr" where
  "target w this mName =
     (case entry_of w this mName of None \<Rightarrow> mcv_next w | Some p \<Rightarrow> p)"

text \<open>
  The invariant of one ledger: its entries have been allocated, each holds a count equal
  to the number of its payloads, and no entry is shared by two keys.
\<close>

definition ledger_ok :: "world \<Rightarrow> addr \<Rightarrow> bool" where
  "ledger_ok w this \<longleftrightarrow>
     (\<forall>k p. verifiers (cls_heap w this) k = Some p \<longrightarrow>
        p < mcv_next w \<and> called (mcv_heap w p) = length (calledData (mcv_heap w p))) \<and>
     (\<forall>k k' p. verifiers (cls_heap w this) k = Some p \<longrightarrow>
                verifiers (cls_heap w this) k' = Some p \<longrightarrow> k = k')"

text \<open>A history used as an example: two calls of \<^verbatim>\<open>bar\<close> after its last reset.\<close>

definition example_history :: "ledger_op list" where
  "example_history =
     [MethodCall ''bar'' 1, DupeMethod ''bar'' (User 1) False, MethodCall ''bar'' 2,
      MethodCall ''baz'' 3, Verify ''bar'' 5, MethodCall ''bar'' 4]"

subsection \<open>The registry and its ledgers\<close>

text \<open>\<^verbatim>\<open>MockVerifier::instance().isMockRegistered(mockPtr)\<close>, and registering a list of
  identities of a mocked type with \<^verbatim>\<open>get<T>\<close>.\<close>

definition registered :: "world \<Rightarrow> voidptr \<Rightarrow> bool" where
  "registered w mockPtr = isMockRegistered (fst (MockVerifier_instance w)) mockPtr"

fun register_all :: "string \<Rightarrow> voidptr list \<Rightarrow> world \<Rightarrow> error + world" where
  "register_all cn [] w = Inr w"
| "register_all cn (p # ps) w =
     (case get cn p w of Inl e \<Rightarrow> Inl e | Inr (c, w') \<Rightarrow> register_all cn ps w')"

text \<open>The class verifiers a registry holds, and the entries a class verifier holds.\<close>

definition handles :: "MockVerifier \<Rightarrow> addr set" where
  "handles mv = ran (mockedClass mv) \<union> ran (defaultMockedClass mv)"

definition owned :: "world \<Rightarrow> addr \<Rightarrow> addr set" where
  "owned w c = ran (verifiers (cls_heap w c))"

text \<open>
  The invariant of a registry, which holds of the empty registry and is kept by every
  operation: its class verifiers have been allocated, no class verifier is held under
  two identities, two class names, or an identity and a class name, and the entries of
  its class verifiers have been allocated and are not shared between two of them.
\<close>

definition wf_registry :: "MockVerifier \<Rightarrow> world \<Rightarrow> bool" where
  "wf_registry mv w \<longleftrightarrow>
     (\<forall>c \<in> handles mv. c < cls_next w) \<and>
     (\<forall>x y c. mockedClass mv x = Some c \<longrightarrow> mockedClass mv y = Some c \<longrightarrow> x = y) \<and>
     (\<forall>x y c. defaultMockedClass mv x = Some c \<longrightarrow>
                defaultMockedClass mv y = Some c \<longrightarrow> x = y) \<and>
     ran (mockedClass mv) \<inter> ran (defaultMockedClass mv) = {} \<and>
     (\<forall>c \<in> handles mv. \<forall>p \<in> owned w c. p < mcv_next w) \<and>
     (\<forall>c \<in> handles mv. \<forall>d \<in> handles mv. c \<noteq> d \<longrightarrow> owned w c \<inter> owned w d = {})"

text \<open>
  The states a registry can be in: it is constructed empty, at any moment of the
  process, and then changed by lookups, by the ledger operations on the class verifiers
  it holds, and by calls of stubs that return.
\<close>

inductive reachable :: "MockVerifier \<Rightarrow> world \<Rightarrow> bool" where
  constructed: "reachable empty_MockVerifier w"
| lookup: "reachable mv w \<Longrightarrow> getMock cn x mv w = Inr (c, mv', w') \<Longrightarrow> reachable mv' w'"
| lookup_default:
    "reachable mv w \<Longrightarrow> getDefaultMock cn mv w = Inr (c, mv', w') \<Longrightarrow> reachable mv' w'"
| ledger_op:
    "reachable mv w \<Longrightarrow> c \<in> handles mv \<Longrightarrow> apply_op c x w = Inr w' \<Longrightarrow> reachable mv w'"
| invoke:
    "reachable mv w \<Longrightarrow> c \<in> handles mv \<Longrightarrow>
     invokeDupedMethod c m arg w = Some (Inr w') \<Longrightarrow> reachable mv w'"

text \<open>What a \<^verbatim>\<open>verify\<close> call shows: its result and what it writes to \<^verbatim>\<open>std::cout\<close>.\<close>

definition verify_outcome ::
  "addr \<Rightarrow> string \<Rightarrow> 32 word \<Rightarrow> world \<Rightarrow> error + bool \<times> tok list"
where
  "verify_outcome this mName ntimes w =
     map_sum id (\<lambda>(b, w1). (b, drop (length (cout w)) (cout w1)))
       (verify this mName ntimes w)"

text \<open>The ledger of the class verifier \<open>c\<close> is the same in two states: the object itself
  and every entry it holds.\<close>

definition same_ledger :: "addr \<Rightarrow> world \<Rightarrow> world \<Rightarrow> bool" where
  "same_ledger c w w' \<longleftrightarrow>
     cls_heap w' c = cls_heap w c \<and> (\<forall>p \<in> owned w c. mcv_heap w' p = mcv_heap w p)"

section \<open>Basic facts\<close>

lemma at_map_Some [simp]: "m k = Some v \<Longrightarrow> at_map m k = Inr v"
  by (simp add: at_map_def)

lemma call_handler_Empty: "call_handler Empty d w = Some (Inl BadFunctionCall)"
  by (subst call_handler.simps) simp

lemma call_handler_User:
  "call_handler (User i) d w = Some (Inr (w\<lparr>calls := calls w @ [(i, d)]\<rparr>))"
  by (subst call_handler.simps) simp

lemma call_handler_Closure:
  "call_handler (Closure h p) d w =
     Option.bind (call_handler (handler (mcv_heap w p)) d w)
       (\<lambda>r. case r of Inl e \<Rightarrow> Some (Inl e) | Inr w' \<Rightarrow> call_handler h d w')"
  by (subst call_handler.simps) simp

lemma size_t_of_int_nonneg: "0 \<le> sint t \<Longrightarrow> size_t_of_int t = nat (sint t)"
proof -
  assume a: "0 \<le> sint t"
  have "sint t < 2 ^ 31" using sint_lt[of t] by simp
  then have "sint t < 2 ^ 64" by (rule less_trans) simp
  with a show ?thesis by (simp add: size_t_of_int_def)
qed

lemma size_t_of_int_0 [simp]: "size_t_of_int 0 = 0"
  by (simp add: size_t_of_int_def)

lemma size_t_of_int_m1: "size_t_of_int (- 1) = 2 ^ 64 - 1"
  by (simp add: size_t_of_int_def)

section \<open>A closure that calls itself\<close>

text \<open>When the entry at \<open>p\<close> holds the closure that points to \<open>p\<close>, calling the closure
  never returns: its first step is to call what the entry holds, which is itself.\<close>

lemma call_handler_self_closure:
  assumes "handler (mcv_heap w p) = Closure h p"
  shows "call_handler (Closure h p) d w = None"
proof -
  have "call_handler f d' w' = Some r \<Longrightarrow> \<not> (f = Closure h p \<and> d' = d \<and> w' = w)"
    for f d' w' r
  proof (rule call_handler.raw_induct
      [where P = "\<lambda>f d' w' r. \<not> (f = Closure h p \<and> d' = d \<and> w' = w)"], goal_cases)
    case (1 ch f d' w' r)
    show ?case
    proof
      assume "f = Closure h p \<and> d' = d \<and> w' = w"
      with 1 assms show False
        by (auto simp: bind_eq_Some_conv)
    qed
  qed
  then show ?thesis
    by (cases "call_handler (Closure h p) d w") auto
qed

lemma dupeMethod_compose_entry:
  assumes "entry_of w this m = Some p" and "handler (mcv_heap w p) \<noteq> Empty"
  shows "\<exists>w2. dupeMethod this m h True w = Inr w2
           \<and> entry_of w2 this m = Some p \<and> handler (mcv_heap w2 p) = Closure h p"
  using assms by (simp add: dupeMethod_def entry_of_def key_of_def Let_def)

lemma invokeDupedMethod_self_closure:
  assumes "entry_of w this m = Some p" and "handler (mcv_heap w p) = Closure h p"
  shows "invokeDupedMethod this m arg w = None"
  using assms call_handler_self_closure[OF assms(2)]
  by (simp add: invokeDupedMethod_def entry_of_def key_of_def Let_def)

section \<open>Stubs, resets and the simple cases of verification\<close>

text \<open>
  C1. After \<^verbatim>\<open>dupeMethod(method, S1)\<close> and \<^verbatim>\<open>dupeMethod(method, S2, true)\<close>, the claim is
  that \<^verbatim>\<open>invokeDupedMethod(method, arg)\<close> runs \<open>S1\<close> and then \<open>S2\<close>, once each. The code
  does not: the composed closure reads the handler through the entry it captured, and
  the entry holds the closure itself by then, so the call never returns, and neither
  \<open>S1\<close> nor \<open>S2\<close> is ever run.
\<close>

theorem compose_scenario_never_returns: "compose_scenario = None"
proof -
  have e0: "entry_of fresh_verifier 0 ''bar'' = None"
    by (simp add: entry_of_def key_of_def fresh_verifier_def
        make_shared_MockClassVerifier_def init_world_def)
  then obtain w1 where d1: "dupeMethod 0 ''bar'' (User 1) False fresh_verifier = Inr w1"
    and e1: "entry_of w1 0 ''bar'' = Some (mcv_next fresh_verifier)"
    and h1: "handler (mcv_heap w1 (mcv_next fresh_verifier)) = User 1"
    by (simp add: dupeMethod_def entry_of_def key_of_def Let_def
        make_shared_MethodCallVerifier_def)
  from h1 have "handler (mcv_heap w1 (mcv_next fresh_verifier)) \<noteq> Empty" by simp
  from dupeMethod_compose_entry[OF e1 this, of "User 2"]
  obtain w2 where d2: "dupeMethod 0 ''bar'' (User 2) True w1 = Inr w2"
    and e2: "entry_of w2 0 ''bar'' = Some (mcv_next fresh_verifier)"
    and h2: "handler (mcv_heap w2 (mcv_next fresh_verifier))
               = Closure (User 2) (mcv_next fresh_verifier)"
    by blast
  from invokeDupedMethod_self_closure[OF e2 h2, of 7]
  show ?thesis unfolding compose_scenario_def d1 by (simp add: d2)
qed

text \<open>
  C3. \<^verbatim>\<open>dupeMethod(method, handler, false)\<close> succeeds in every state; afterwards the
  method has an entry whose recorded payloads are empty and whose call count is 0, and
  \<^verbatim>\<open>verify(method, 0)\<close> returns true (and writes nothing).
\<close>

theorem dupeMethod_resets_history:
  "\<exists>w1 p. dupeMethod this m h False w = Inr w1
     \<and> entry_of w1 this m = Some p
     \<and> calledData (mcv_heap w1 p) = [] \<and> called (mcv_heap w1 p) = 0
     \<and> verify this m 0 w1 = Inr (True, w1)"
  by (cases "verifiers (cls_heap w this) (className (cls_heap w this) @ m)")
    (simp_all add: dupeMethod_def verify_def entry_of_def key_of_def Let_def
      make_shared_MethodCallVerifier_def)

text \<open>
  C5. For a method whose key has no ledger entry, \<^verbatim>\<open>verify(method, times)\<close> returns
  false for every \<open>times > 0\<close> and true for \<open>times = 0\<close>.
\<close>

theorem verify_unknown_method:
  assumes "entry_of w this m = None"
  shows "(0 < sint t \<longrightarrow> (\<exists>w1. verify this m t w = Inr (False, w1)))
       \<and> verify this m 0 w = Inr (True, w)"
  using assms by (auto simp: verify_def entry_of_def key_of_def Let_def)

theorem verify_unknown_method_witness:
  "(\<exists>w1. verify 0 ''bar'' 3 fresh_verifier = Inr (False, w1))
   \<and> verify 0 ''bar'' 0 fresh_verifier = Inr (True, fresh_verifier)"
proof -
  have e: "entry_of fresh_verifier 0 ''bar'' = None"
    by (simp add: entry_of_def key_of_def fresh_verifier_def
        make_shared_MockClassVerifier_def init_world_def)
  have "0 < sint (3 :: 32 word)" by simp
  with verify_unknown_method[OF e, of 3] show ?thesis by blast
qed

text \<open>
  C6. After \<^verbatim>\<open>dupeMethod("bar", h1)\<close>, one \<^verbatim>\<open>invokeDupedMethod("bar", arg)\<close> returns, having
  called \<open>h1\<close> once with \<open>arg\<close> and changed nothing else (the two stores are as before, so
  the payloads and the count of every method are), and \<^verbatim>\<open>verify("bar", 0)\<close> is still true.
\<close>

theorem invokeDupedMethod_calls_stub_once:
  "\<exists>w1. dupeMethod this ''bar'' (User i) False w = Inr w1
    \<and> invokeDupedMethod this ''bar'' arg w1
        = Some (Inr (w1\<lparr>calls := calls w1 @ [(i, arg)]\<rparr>))
    \<and> verify this ''bar'' 0 (w1\<lparr>calls := calls w1 @ [(i, arg)]\<rparr>)
        = Inr (True, w1\<lparr>calls := calls w1 @ [(i, arg)]\<rparr>)"
  by (cases "verifiers (cls_heap w this) (className (cls_heap w this) @ ''bar'')")
    (simp_all add: dupeMethod_def verify_def invokeDupedMethod_def Let_def
      make_shared_MethodCallVerifier_def call_handler_User)

text \<open>
  C8. \<^verbatim>\<open>verify(method, -1)\<close> returns true exactly when the call count recorded for the
  key is greater than 0.
\<close>

theorem verify_default_times:
  "\<exists>w1. verify this m (- 1) w = Inr (0 < callCount w this m, w1)"
  by (cases "entry_of w this m")
    (auto simp: verify_def entry_of_def key_of_def Let_def callCount_def size_t_of_int_m1)

section \<open>Counting calls\<close>

lemma sint_eq_0: "(sint (N :: 32 word) = 0) = (N = 0)"
  by (rule signed_eq_0_iff)

lemma methodCall_effect:
  "\<exists>w'. methodCall this m x w = Inr w'
     \<and> cls_heap w' = (cls_heap w)
          (this := (cls_heap w this)
             \<lparr>verifiers := (verifiers (cls_heap w this))(key_of w this m \<mapsto> target w this m)\<rparr>)
     \<and> (\<forall>q. q \<noteq> target w this m \<longrightarrow> mcv_heap w' q = mcv_heap w q)
     \<and> calledData (mcv_heap w' (target w this m))
         = (case entry_of w this m of None \<Rightarrow> [] | Some p \<Rightarrow> calledData (mcv_heap w p)) @ [x]
     \<and> called (mcv_heap w' (target w this m))
         = length (calledData (mcv_heap w' (target w this m)))
     \<and> handler (mcv_heap w' (target w this m))
         = (case entry_of w this m of None \<Rightarrow> Empty | Some p \<Rightarrow> handler (mcv_heap w p))
     \<and> mcv_next w' = (case entry_of w this m of None \<Rightarrow> Suc (mcv_next w) | Some p \<Rightarrow> mcv_next w)
     \<and> cls_next w' = cls_next w \<and> inst w' = inst w
     \<and> cout w' = cout w \<and> cerr w' = cerr w \<and> calls w' = calls w"
  by (cases "verifiers (cls_heap w this) (className (cls_heap w this) @ m)")
    (simp_all add: methodCall_def entry_of_def key_of_def target_def Let_def
      make_shared_MethodCallVerifier_def default_MethodCallVerifier_def)

lemma dupeMethod_effect:
  "\<exists>w'. dupeMethod this m h c w = Inr w'
     \<and> cls_heap w' = (cls_heap w)
          (this := (cls_heap w this)
             \<lparr>verifiers := (verifiers (cls_heap w this))(key_of w this m \<mapsto> target w this m)\<rparr>)
     \<and> (\<forall>q. q \<noteq> target w this m \<longrightarrow> mcv_heap w' q = mcv_heap w q)
     \<and> calledData (mcv_heap w' (target w this m)) = []
     \<and> called (mcv_heap w' (target w this m)) = 0
     \<and> handler (mcv_heap w' (target w this m))
         = (case entry_of w this m of
              None \<Rightarrow> h
            | Some p \<Rightarrow> if c \<and> handler (mcv_heap w p) \<noteq> Empty
                        then Closure h p else h)
     \<and> mcv_next w' = (case entry_of w this m of None \<Rightarrow> Suc (mcv_next w) | Some p \<Rightarrow> mcv_next w)
     \<and> cls_next w' = cls_next w \<and> inst w' = inst w
     \<and> cout w' = cout w \<and> cerr w' = cerr w \<and> calls w' = calls w"
  by (cases "verifiers (cls_heap w this) (className (cls_heap w this) @ m)")
    (simp_all add: dupeMethod_def entry_of_def key_of_def target_def Let_def
      make_shared_MethodCallVerifier_def default_MethodCallVerifier_def)

lemma target_cases:
  "(entry_of w this m = None \<and> target w this m = mcv_next w)
   \<or> entry_of w this m = Some (target w this m)"
  by (cases "entry_of w this m") (simp_all add: target_def)

lemma ledger_ok_update:
  assumes ok: "ledger_ok w this"
    and cls: "cls_heap w' = (cls_heap w)
          (this := (cls_heap w this)
             \<lparr>verifiers := (verifiers (cls_heap w this))(key_of w this m \<mapsto> target w this m)\<rparr>)"
    and frame: "\<forall>q. q \<noteq> target w this m \<longrightarrow> mcv_heap w' q = mcv_heap w q"
    and len: "called (mcv_heap w' (target w this m))
         = length (calledData (mcv_heap w' (target w this m)))"
    and nxt: "mcv_next w' = (case entry_of w this m of None \<Rightarrow> Suc (mcv_next w) | Some p \<Rightarrow> mcv_next w)"
  shows "ledger_ok w' this"
    and "className (cls_heap w' this) = className (cls_heap w this)"
    and "entry_of w' this m = Some (target w this m)"
    and "m' \<noteq> m \<Longrightarrow> callCount w' this m' = callCount w this m'"
proof -
  show cn: "className (cls_heap w' this) = className (cls_heap w this)"
    by (simp add: cls)
  show "entry_of w' this m = Some (target w this m)"
    by (simp add: entry_of_def key_of_def cls)
  let ?V = "verifiers (cls_heap w this)"
  let ?t = "target w this m"
  let ?k = "key_of w this m"
  have V': "verifiers (cls_heap w' this) = ?V(?k \<mapsto> ?t)"
    by (simp add: cls)
  have bound: "p < mcv_next w" if "?V k = Some p" for k p
    using ok that by (auto simp: ledger_ok_def)
  have mono: "mcv_next w \<le> mcv_next w'"
    by (simp add: nxt split: option.splits)
  have t_bound: "?t < mcv_next w'"
    using target_cases[of w this m] bound[of ?k ?t]
    by (auto simp: nxt entry_of_def)
  have other: "p \<noteq> ?t" if "?V k = Some p" "k \<noteq> ?k" for k p
  proof
    assume "p = ?t"
    from target_cases[of w this m] show False
    proof
      assume "entry_of w this m = None \<and> ?t = mcv_next w"
      with bound[OF that(1)] \<open>p = ?t\<close> show False by simp
    next
      assume "entry_of w this m = Some ?t"
      then have "?V ?k = Some p" using \<open>p = ?t\<close> by (simp add: entry_of_def)
      with ok that show False by (auto simp: ledger_ok_def)
    qed
  qed
  show "ledger_ok w' this"
    unfolding ledger_ok_def V'
  proof (intro conjI allI impI)
    fix k p assume a: "(?V(?k \<mapsto> ?t)) k = Some p"
    show "p < mcv_next w'"
      using a t_bound bound[of k p] mono by (auto split: if_splits)
    show "called (mcv_heap w' p) = length (calledData (mcv_heap w' p))"
    proof (cases "k = ?k")
      case True
      with a len show ?thesis by simp
    next
      case False
      with a have v: "?V k = Some p" by simp
      from other[OF v False] frame have "mcv_heap w' p = mcv_heap w p" by simp
      with ok v show ?thesis by (auto simp: ledger_ok_def)
    qed
  next
    fix k k' p
    assume a: "(?V(?k \<mapsto> ?t)) k = Some p" and b: "(?V(?k \<mapsto> ?t)) k' = Some p"
    show "k = k'"
    proof (cases "k = ?k"; cases "k' = ?k")
      assume "k = ?k" "k' \<noteq> ?k"
      with a b other[of k' p] show ?thesis by simp
    next
      assume "k \<noteq> ?k" "k' = ?k"
      with a b other[of k p] show ?thesis by simp
    next
      assume "k \<noteq> ?k" "k' \<noteq> ?k"
      with a b ok show ?thesis by (auto simp: ledger_ok_def)
    qed simp
  qed
  show "callCount w' this m' = callCount w this m'" if ne: "m' \<noteq> m"
  proof -
    have k: "key_of w this m' \<noteq> key_of w this m" using ne by (simp add: key_of_def)
    have e: "entry_of w' this m' = entry_of w this m'"
      using k by (simp add: entry_of_def key_of_def cls)
    show ?thesis
    proof (cases "entry_of w this m'")
      case None
      with e show ?thesis by (simp add: callCount_def)
    next
      case (Some q)
      have "q \<noteq> target w this m"
        using other[of "key_of w this m'" q] Some k by (simp add: entry_of_def)
      with frame Some e show ?thesis by (simp add: callCount_def)
    qed
  qed
qed

lemma count_fold:
  "foldl (count_step m) 0 ops = calls_since_reset m ops"
proof (induction ops rule: rev_induct)
  case Nil
  show ?case by (simp add: calls_since_reset_def)
next
  case (snoc x xs)
  then show ?case by (simp add: calls_since_reset_def count_step_def)
qed

lemma verify_exact:
  assumes "0 \<le> sint N"
  shows "\<exists>w2. verify this m N w = Inr (callCount w this m = nat (sint N), w2)"
proof (cases "entry_of w this m")
  case None
  have "(N = 0) = (sint N = 0)" by (simp add: sint_eq_0)
  with None assms show ?thesis
    by (auto simp: verify_def entry_of_def key_of_def callCount_def Let_def)
next
  case (Some p)
  with assms show ?thesis
    by (auto simp: verify_def entry_of_def key_of_def callCount_def Let_def size_t_of_int_nonneg)
qed


lemma verify_effect:
  "\<exists>b w1. verify this m t w = Inr (b, w1)
     \<and> mcv_heap w1 = mcv_heap w \<and> mcv_next w1 = mcv_next w
     \<and> cls_heap w1 = cls_heap w \<and> cls_next w1 = cls_next w
     \<and> inst w1 = inst w \<and> cerr w1 = cerr w \<and> calls w1 = calls w"
  by (cases "verifiers (cls_heap w this) (className (cls_heap w this) @ m)")
    (simp_all add: verify_def Let_def)

lemma apply_op_step:
  assumes ok: "ledger_ok w this"
  shows "\<exists>w'. apply_op this x w = Inr w' \<and> ledger_ok w' this
          \<and> callCount w' this m = count_step m (callCount w this m) x"
proof (cases x)
  case (MethodCall m' y)
  from methodCall_effect[of this m' y w] obtain w' where
    r: "methodCall this m' y w = Inr w'"
    and cls: "cls_heap w' = (cls_heap w)
          (this := (cls_heap w this)
             \<lparr>verifiers := (verifiers (cls_heap w this))(key_of w this m' \<mapsto> target w this m')\<rparr>)"
    and frame: "\<forall>q. q \<noteq> target w this m' \<longrightarrow> mcv_heap w' q = mcv_heap w q"
    and dat: "calledData (mcv_heap w' (target w this m'))
         = (case entry_of w this m' of None \<Rightarrow> [] | Some p \<Rightarrow> calledData (mcv_heap w p)) @ [y]"
    and len: "called (mcv_heap w' (target w this m'))
         = length (calledData (mcv_heap w' (target w this m')))"
    and nxt: "mcv_next w' = (case entry_of w this m' of None \<Rightarrow> Suc (mcv_next w) | Some p \<Rightarrow> mcv_next w)"
    by blast
  note u = ledger_ok_update[OF ok cls frame len nxt]
  have "callCount w' this m = count_step m (callCount w this m) x"
  proof (cases "m' = m")
    case True
    have "callCount w' this m = Suc (callCount w this m)"
    proof (cases "entry_of w this m")
      case None
      with u(3) dat len True show ?thesis by (simp add: callCount_def)
    next
      case (Some p)
      then have "called (mcv_heap w p) = length (calledData (mcv_heap w p))"
        using ok by (auto simp: ledger_ok_def entry_of_def)
      with Some u(3) dat len True show ?thesis by (simp add: callCount_def target_def)
    qed
    with True MethodCall show ?thesis by (simp add: count_step_def)
  next
    case False
    with u(4)[of m] MethodCall show ?thesis by (auto simp: count_step_def)
  qed
  with r u(1) MethodCall show ?thesis by simp
next
  case (DupeMethod m' h c)
  from dupeMethod_effect[of this m' h c w] obtain w' where
    r: "dupeMethod this m' h c w = Inr w'"
    and cls: "cls_heap w' = (cls_heap w)
          (this := (cls_heap w this)
             \<lparr>verifiers := (verifiers (cls_heap w this))(key_of w this m' \<mapsto> target w this m')\<rparr>)"
    and frame: "\<forall>q. q \<noteq> target w this m' \<longrightarrow> mcv_heap w' q = mcv_heap w q"
    and dat: "calledData (mcv_heap w' (target w this m')) = []"
    and cnt: "called (mcv_heap w' (target w this m')) = 0"
    and nxt: "mcv_next w' = (case entry_of w this m' of None \<Rightarrow> Suc (mcv_next w) | Some p \<Rightarrow> mcv_next w)"
    by blast
  from dat cnt have len: "called (mcv_heap w' (target w this m'))
         = length (calledData (mcv_heap w' (target w this m')))" by simp
  note u = ledger_ok_update[OF ok cls frame len nxt]
  have "callCount w' this m = count_step m (callCount w this m) x"
  proof (cases "m' = m")
    case True
    with u(3) cnt DupeMethod show ?thesis by (simp add: callCount_def count_step_def)
  next
    case False
    with u(4)[of m] DupeMethod show ?thesis by (auto simp: count_step_def)
  qed
  with r u(1) DupeMethod show ?thesis by simp
next
  case (Verify m' t)
  from verify_effect[of this m' t w] obtain b w1 where
    r: "verify this m' t w = Inr (b, w1)"
    and same: "mcv_heap w1 = mcv_heap w" "mcv_next w1 = mcv_next w"
      "cls_heap w1 = cls_heap w"
    by blast
  from ok have "ledger_ok w1 this"
    by (simp add: ledger_ok_def same)
  moreover have "callCount w1 this m = callCount w this m"
    by (simp add: callCount_def entry_of_def key_of_def same split: option.splits)
  ultimately show ?thesis
    using r Verify by (simp add: count_step_def)
qed

lemma run_ops_count:
  "ledger_ok w this \<Longrightarrow>
   \<exists>w'. run_ops this ops w = Inr w' \<and> ledger_ok w' this
        \<and> callCount w' this m = foldl (count_step m) (callCount w this m) ops"
proof (induction ops arbitrary: w)
  case Nil
  then show ?case by simp
next
  case (Cons x xs)
  from apply_op_step[OF Cons.prems, of x m] obtain w1 where
    s: "apply_op this x w = Inr w1" and ok1: "ledger_ok w1 this"
    and c1: "callCount w1 this m = count_step m (callCount w this m) x"
    by blast
  from Cons.IH[OF ok1] s c1 show ?case by simp
qed

lemma new_verifier_ok:
  assumes "make_shared_MockClassVerifier cn w = (this, w0)"
  shows "ledger_ok w0 this" and "callCount w0 this m = 0"
  using assms
  by (auto simp: make_shared_MockClassVerifier_def ledger_ok_def callCount_def entry_of_def)

text \<open>
  C2. Take a newly constructed verifier and any history of \<^verbatim>\<open>methodCall\<close>, \<^verbatim>\<open>dupeMethod\<close>
  and \<^verbatim>\<open>verify\<close> calls on it, on any methods. The history runs without an exception, and
  for a non-negative \<open>N\<close>, \<^verbatim>\<open>verify(method, N)\<close> then returns true exactly when \<open>N\<close> calls of
  the method were recorded since its last \<^verbatim>\<open>dupeMethod\<close>, or since creation.
\<close>

theorem verify_counts_calls_since_reset:
  assumes "make_shared_MockClassVerifier cn w = (this, w0)" and "0 \<le> sint N"
  shows "\<exists>w1 w2. run_ops this ops w0 = Inr w1
           \<and> verify this m N w1 = Inr (calls_since_reset m ops = nat (sint N), w2)"
proof -
  from run_ops_count[OF new_verifier_ok(1)[OF assms(1)], of ops m]
  obtain w1 where r: "run_ops this ops w0 = Inr w1"
    and c: "callCount w1 this m = foldl (count_step m) (callCount w0 this m) ops"
    by blast
  from c have "callCount w1 this m = calls_since_reset m ops"
    by (simp add: new_verifier_ok(2)[OF assms(1)] count_fold)
  with verify_exact[OF assms(2), of this m w1] r show ?thesis by auto
qed


theorem verify_counts_calls_since_reset_witness:
  "\<exists>w1 w2. run_ops 0 example_history fresh_verifier = Inr w1
      \<and> verify 0 ''bar'' 2 w1 = Inr (True, w2)"
proof -
  have m: "make_shared_MockClassVerifier ''Foo'' init_world = (0, fresh_verifier)"
    by (simp add: fresh_verifier_def make_shared_MockClassVerifier_def init_world_def)
  have n: "0 \<le> sint (2 :: 32 word)"
    by simp
  have c: "calls_since_reset ''bar'' example_history = nat (sint (2 :: 32 word))"
    by (simp add: calls_since_reset_def example_history_def)
  from verify_counts_calls_since_reset[OF m n, of example_history "''bar''"] c
  show ?thesis by simp
qed

lemma one_call_world_facts:
  "className (cls_heap one_call_world 0) = ''Foo''"
  "verifiers (cls_heap one_call_world 0) ''Foobar'' = Some 0"
  "called (mcv_heap one_call_world 0) = 1"
  "cout one_call_world = []"
  "cerr one_call_world = []"
  by (simp_all add: one_call_world_def methodCall_def fresh_verifier_def Let_def
      make_shared_MockClassVerifier_def make_shared_MethodCallVerifier_def init_world_def
      default_MethodCallVerifier_def)

text \<open>
  C4, as stated, fails: on a verifier that has no entry for \<^verbatim>\<open>bar\<close>, \<^verbatim>\<open>verify("bar", -1)\<close>
  returns false and leaves the process as it was, so nothing has been written to
  \<^verbatim>\<open>std::cout\<close> or to \<^verbatim>\<open>std::cerr\<close>. And after one recorded call, \<^verbatim>\<open>verify("bar", 2)\<close>
  returns false with its line written to \<^verbatim>\<open>std::cout\<close>, while \<^verbatim>\<open>std::cerr\<close> stays empty.
\<close>

theorem verify_silent_failure:
  "verify 0 ''bar'' (- 1) fresh_verifier = Inr (False, fresh_verifier)
   \<and> cout fresh_verifier = [] \<and> cerr fresh_verifier = []
   \<and> verify 0 ''bar'' 2 one_call_world
       = Inr (False, one_call_world\<lparr>cout :=
                [Str ''Verify error for method '', Str ''Foobar'',
                 Str '', method has been called '', SizeTok 1,
                 Str '' and not '', IntTok 2, Endl]\<rparr>)
   \<and> cerr one_call_world = []"
proof -
  have "verify 0 ''bar'' (- 1) fresh_verifier = Inr (False, fresh_verifier)
      \<and> cout fresh_verifier = [] \<and> cerr fresh_verifier = []"
    by (simp add: verify_def fresh_verifier_def make_shared_MockClassVerifier_def
        init_world_def Let_def)
  moreover have "verify 0 ''bar'' 2 one_call_world
       = Inr (False, one_call_world\<lparr>cout :=
                [Str ''Verify error for method '', Str ''Foobar'',
                 Str '', method has been called '', SizeTok 1,
                 Str '' and not '', IntTok 2, Endl]\<rparr>)"
    by (simp add: verify_def Let_def size_t_of_int_def one_call_world_facts)
  ultimately show ?thesis
    by (simp add: one_call_world_facts)
qed

text \<open>
  C4, amended. \<^verbatim>\<open>verify\<close> never throws and never writes to \<^verbatim>\<open>std::cerr\<close>. When it returns
  false for a key that has an entry, it appends to \<^verbatim>\<open>std::cout\<close> one line with the key,
  the recorded count and the expected count; when it returns false for a key without an
  entry and \<open>times > 0\<close>, it appends one line with the key, the words that the method was
  never called, and the expected count.
\<close>

theorem verify_diagnostic:
  "\<exists>b w1. verify this m t w = Inr (b, w1) \<and> cerr w1 = cerr w \<and>
     (\<not> b \<longrightarrow>
        (case entry_of w this m of
           None \<Rightarrow>
             0 < sint t \<longrightarrow>
               cout w1 = cout w @
                 [Str ''Verify error for method '', Str (key_of w this m),
                  Str '', method never have been called while we expected '',
                  IntTok (sint t), Str '' calls'', Endl]
         | Some p \<Rightarrow>
             cout w1 = cout w @
               [Str ''Verify error for method '', Str (key_of w this m),
                Str '', method has been called '', SizeTok (called (mcv_heap w p)),
                Str '' and not '', IntTok (sint t), Endl]))"
  by (cases "entry_of w this m")
    (auto simp: verify_def entry_of_def key_of_def Let_def)

theorem verify_diagnostic_witness:
  "\<exists>w1. verify 0 ''bar'' 2 one_call_world = Inr (False, w1) \<and>
      cout w1 = [Str ''Verify error for method '', Str ''Foobar'',
                Str '', method has been called '', SizeTok 1,
                Str '' and not '', IntTok 2, Endl]"
proof -
  note f = one_call_world_facts
  have v: "\<exists>w1. verify 0 ''bar'' 2 one_call_world = Inr (False, w1)"
    by (simp add: verify_def Let_def size_t_of_int_def f)
  have e: "entry_of one_call_world 0 ''bar'' = Some 0"
    "key_of one_call_world 0 ''bar'' = ''Foobar''"
    by (simp_all add: entry_of_def key_of_def f)
  from verify_diagnostic[of 0 "''bar''" 2 one_call_world] v
  show ?thesis by (auto simp: e f)
qed

section \<open>Handlers change nothing but the call log\<close>

lemma call_handler_frame:
  assumes "call_handler f d w = Some (Inr w')"
  shows "w' = w\<lparr>calls := calls w'\<rparr>"
proof -
  define P where "P = (\<lambda>(f :: handler_fn) (d :: voidptr) (w :: world) (r :: error + world).
      \<forall>w'. r = Inr w' \<longrightarrow> w' = w\<lparr>calls := calls w'\<rparr>)"
  have "P f d w (Inr w')"
  proof (rule call_handler.raw_induct[where P = P, OF _ assms])
    fix ch f d w r
    assume IH: "\<And>f d w r. ch f d w = Some r \<Longrightarrow> P f d w r"
      and eq: "(case f of
          Empty \<Rightarrow> Some (Inl BadFunctionCall)
        | User i \<Rightarrow> Some (Inr (w\<lparr>calls := calls w @ [(i, d)]\<rparr>))
        | Closure h p \<Rightarrow>
            Option.bind (ch (handler (mcv_heap w p)) d w)
              (\<lambda>r. case r of Inl e \<Rightarrow> Some (Inl e) | Inr w' \<Rightarrow> ch h d w')) = Some r"
    show "P f d w r"
    proof (cases f)
      case Empty
      with eq show ?thesis by (auto simp: P_def)
    next
      case (User i)
      with eq show ?thesis by (auto simp: P_def)
    next
      case (Closure h p)
      show ?thesis
        unfolding P_def
      proof (intro allI impI)
        fix w' assume r: "r = Inr w'"
        from eq Closure obtain r1 where a: "ch (handler (mcv_heap w p)) d w = Some r1"
          and b: "(case r1 of Inl e \<Rightarrow> Some (Inl e) | Inr w1 \<Rightarrow> ch h d w1) = Some r"
          by (auto simp: bind_eq_Some_conv)
        from b r obtain w1 where r1: "r1 = Inr w1" and c: "ch h d w1 = Some (Inr w')"
          by (cases r1) auto
        from IH[OF a] r1 have e1: "w1 = w\<lparr>calls := calls w1\<rparr>"
          unfolding P_def by blast
        from IH[OF c] have e2: "w' = w1\<lparr>calls := calls w'\<rparr>"
          unfolding P_def by blast
        have "w1\<lparr>calls := calls w'\<rparr> = w\<lparr>calls := calls w'\<rparr>"
          by (subst e1) simp
        with e2 show "w' = w\<lparr>calls := calls w'\<rparr>"
          by (rule trans)
      qed
    qed
  qed
  then show ?thesis unfolding P_def by blast
qed

lemma invokeDupedMethod_frame:
  assumes "invokeDupedMethod this m arg w = Some (Inr w')"
  shows "w' = w\<lparr>calls := calls w'\<rparr>"
proof (cases "verifiers (cls_heap w this) (className (cls_heap w this) @ m)")
  case None
  with assms show ?thesis by (simp add: invokeDupedMethod_def Let_def)
next
  case (Some p)
  show ?thesis
  proof (cases "handler (mcv_heap w p) = Empty")
    case True
    with Some assms show ?thesis by (simp add: invokeDupedMethod_def Let_def)
  next
    case False
    with Some assms have "call_handler (handler (mcv_heap w p)) arg w = Some (Inr w')"
      by (simp add: invokeDupedMethod_def Let_def)
    then show ?thesis by (rule call_handler_frame)
  qed
qed


section \<open>The singleton\<close>

lemma get_registers:
  "\<exists>c w'. get cn p w = Inr (c, w') \<and> (\<forall>q. registered w' q = (q = p \<or> registered w q))"
proof (cases "inst w")
  case None
  then show ?thesis
    by (auto simp: get_def MockVerifier_instance_def getMock_def isMockRegistered_def
        addMock_def make_shared_MockClassVerifier_def registered_def empty_MockVerifier_def)
next
  case (Some mv)
  then show ?thesis
    by (cases "mockedClass mv p")
      (auto simp: get_def MockVerifier_instance_def getMock_def isMockRegistered_def
        addMock_def make_shared_MockClassVerifier_def registered_def)
qed

lemma register_all_registers:
  "\<exists>w1. register_all cn ps w = Inr w1
     \<and> (\<forall>q. registered w1 q = (q \<in> set ps \<or> registered w q))"
proof (induction ps arbitrary: w)
  case Nil
  show ?case by simp
next
  case (Cons p ps)
  from get_registers[of cn p w] obtain c w' where
    g: "get cn p w = Inr (c, w')" and r: "\<forall>q. registered w' q = (q = p \<or> registered w q)"
    by blast
  from Cons.IH[of w'] obtain w1 where
    a: "register_all cn ps w' = Inr w1"
    and b: "\<forall>q. registered w1 q = (q \<in> set ps \<or> registered w' q)"
    by blast
  from g a b r show ?case by auto
qed

text \<open>
  C7. Register any identities with \<^verbatim>\<open>get\<close> (that is, \<^verbatim>\<open>instance().getMock\<close>): this succeeds
  and each of them is registered. After \<^verbatim>\<open>cleanUp()\<close>, \<^verbatim>\<open>instance()\<close> yields the empty
  registry, and \<^verbatim>\<open>isMockRegistered\<close> is false for every identity.
\<close>

theorem cleanUp_fresh_registry:
  "\<exists>w1. register_all cn ps w = Inr w1
     \<and> list_all (registered w1) ps
     \<and> fst (MockVerifier_instance (cleanUp w1)) = empty_MockVerifier
     \<and> (\<forall>mockPtr. \<not> registered (cleanUp w1) mockPtr)"
proof -
  from register_all_registers[of cn ps w] obtain w1 where
    a: "register_all cn ps w = Inr w1"
    and b: "\<forall>q. registered w1 q = (q \<in> set ps \<or> registered w q)"
    by blast
  from b have "list_all (registered w1) ps" by (simp add: list_all_iff)
  moreover have "fst (MockVerifier_instance (cleanUp w1)) = empty_MockVerifier"
    by (simp add: MockVerifier_instance_def cleanUp_def)
  moreover have "\<not> registered (cleanUp w1) mockPtr" for mockPtr
    by (simp add: registered_def MockVerifier_instance_def cleanUp_def isMockRegistered_def
      empty_MockVerifier_def)
  ultimately show ?thesis using a by blast
qed

theorem cleanUp_fresh_registry_witness:
  "\<exists>w1. register_all ''Foo'' [100, 200] init_world = Inr w1
     \<and> registered w1 100 \<and> registered w1 200
     \<and> \<not> registered (cleanUp w1) 100 \<and> \<not> registered (cleanUp w1) 200"
  using cleanUp_fresh_registry[of "''Foo''" "[100, 200]" init_world] by auto

section \<open>Separation of the ledgers of a registry\<close>

lemma wf_empty: "wf_registry empty_MockVerifier w"
  by (simp add: wf_registry_def empty_MockVerifier_def handles_def)

lemma same_ledger_verify:
  assumes "same_ledger c w w'"
  shows "verify_outcome c m t w' = verify_outcome c m t w"
proof (cases "verifiers (cls_heap w c) (className (cls_heap w c) @ m)")
  case None
  with assms show ?thesis
    by (simp add: same_ledger_def verify_outcome_def verify_def Let_def)
next
  case (Some p)
  then have "p \<in> owned w c" by (auto simp: owned_def ran_def)
  with assms have "mcv_heap w' p = mcv_heap w p" by (simp add: same_ledger_def)
  with assms Some show ?thesis
    by (simp add: same_ledger_def verify_outcome_def verify_def Let_def)
qed

lemma target_owned_or_fresh:
  "target w c m \<in> owned w c \<or> target w c m = mcv_next w"
  using target_cases[of w c m] by (auto simp: owned_def entry_of_def ran_def)

lemma wf_owned_bound:
  "wf_registry mv w \<Longrightarrow> d \<in> handles mv \<Longrightarrow> p \<in> owned w d \<Longrightarrow> p < mcv_next w"
  unfolding wf_registry_def by blast

lemma wf_owned_disjoint:
  "wf_registry mv w \<Longrightarrow> c \<in> handles mv \<Longrightarrow> d \<in> handles mv \<Longrightarrow> c \<noteq> d
     \<Longrightarrow> p \<in> owned w c \<Longrightarrow> p \<notin> owned w d"
  unfolding wf_registry_def by blast

lemma target_not_owned:
  assumes wf: "wf_registry mv w" and c: "c \<in> handles mv" and d: "d \<in> handles mv" and ne: "c \<noteq> d"
  shows "target w c m \<notin> owned w d"
proof
  assume a: "target w c m \<in> owned w d"
  from target_owned_or_fresh[of w c m] show False
  proof
    assume "target w c m \<in> owned w c"
    from wf_owned_disjoint[OF wf c d ne this] a show False by simp
  next
    assume "target w c m = mcv_next w"
    with wf_owned_bound[OF wf d a] show False by simp
  qed
qed

lemma update_frame:
  assumes wf: "wf_registry mv w" and c: "c \<in> handles mv" and d: "d \<in> handles mv" and ne: "c \<noteq> d"
    and cls: "cls_heap w' = (cls_heap w)
          (c := (cls_heap w c)
             \<lparr>verifiers := (verifiers (cls_heap w c))(key_of w c m \<mapsto> target w c m)\<rparr>)"
    and frame: "\<forall>q. q \<noteq> target w c m \<longrightarrow> mcv_heap w' q = mcv_heap w q"
  shows "same_ledger d w w'"
  unfolding same_ledger_def
proof (intro conjI ballI)
  show "cls_heap w' d = cls_heap w d" using ne by (simp add: cls)
next
  fix p assume "p \<in> owned w d"
  with target_not_owned[OF wf c d ne, of m] have "p \<noteq> target w c m" by blast
  with frame show "mcv_heap w' p = mcv_heap w p" by simp
qed

lemma owned_update:
  assumes cls: "cls_heap w' = (cls_heap w)
          (c := (cls_heap w c)
             \<lparr>verifiers := (verifiers (cls_heap w c))(key_of w c m \<mapsto> target w c m)\<rparr>)"
  shows "owned w' c \<subseteq> insert (target w c m) (owned w c)"
    and "d \<noteq> c \<Longrightarrow> owned w' d = owned w d"
  by (auto simp: owned_def cls ran_def split: if_splits)

lemma update_wf:
  assumes wf: "wf_registry mv w" and c: "c \<in> handles mv"
    and cls: "cls_heap w' = (cls_heap w)
          (c := (cls_heap w c)
             \<lparr>verifiers := (verifiers (cls_heap w c))(key_of w c m \<mapsto> target w c m)\<rparr>)"
    and nxt: "mcv_next w' = (case entry_of w c m of None \<Rightarrow> Suc (mcv_next w) | Some p \<Rightarrow> mcv_next w)"
    and cn: "cls_next w' = cls_next w"
  shows "wf_registry mv w'"
proof -
  note ou = owned_update[OF cls]
  have mono: "mcv_next w \<le> mcv_next w'" by (simp add: nxt split: option.splits)
  have bound: "p < mcv_next w" if "d \<in> handles mv" "p \<in> owned w d" for d p
    using wf that by (auto simp: wf_registry_def)
  have t_bound: "target w c m < mcv_next w'"
  proof (cases "entry_of w c m")
    case None
    then show ?thesis by (simp add: nxt target_def)
  next
    case (Some p)
    then have "p \<in> owned w c" by (auto simp: owned_def entry_of_def ran_def)
    from bound[OF c this] Some show ?thesis by (simp add: nxt target_def)
  qed
  have b': "p < mcv_next w'" if "d \<in> handles mv" "p \<in> owned w' d" for d p
  proof (cases "d = c")
    case True
    with that ou(1) have "p = target w c m \<or> p \<in> owned w c" by auto
    with t_bound bound[OF c, of p] mono show ?thesis by auto
  next
    case False
    with that ou(2)[of d] bound[of d p] mono show ?thesis by auto
  qed
  have disj: "owned w' a \<inter> owned w' b = {}" if "a \<in> handles mv" "b \<in> handles mv" "a \<noteq> b" for a b
  proof -
    have old: "owned w a \<inter> owned w b = {}" using wf that by (auto simp: wf_registry_def)
    show ?thesis
    proof (cases "a = c")
      case True
      with that have "b \<noteq> c" by simp
      from target_not_owned[OF wf c that(2), of m] True that(3)
      have "target w c m \<notin> owned w b" by simp
      with ou(1) ou(2)[OF \<open>b \<noteq> c\<close>] old True show ?thesis by auto
    next
      case False
      show ?thesis
      proof (cases "b = c")
        case True
        from target_not_owned[OF wf c that(1), of m] True that(3)
        have "target w c m \<notin> owned w a" by simp
        with ou(1) ou(2)[OF False] old True show ?thesis by auto
      next
        case bc: False
        with ou(2)[OF False] ou(2)[OF bc] old show ?thesis by simp
      qed
    qed
  qed
  from wf have "(\<forall>c \<in> handles mv. c < cls_next w') \<and>
     (\<forall>x y c. mockedClass mv x = Some c \<longrightarrow> mockedClass mv y = Some c \<longrightarrow> x = y) \<and>
     (\<forall>x y c. defaultMockedClass mv x = Some c \<longrightarrow> defaultMockedClass mv y = Some c \<longrightarrow> x = y) \<and>
     ran (mockedClass mv) \<inter> ran (defaultMockedClass mv) = {}"
    by (simp add: wf_registry_def cn)
  with b' disj show ?thesis
    unfolding wf_registry_def by blast
qed


lemma same_ledger_refl: "same_ledger c w w"
  by (simp add: same_ledger_def)

lemma same_ledger_trans:
  "same_ledger c w w1 \<Longrightarrow> same_ledger c w1 w2 \<Longrightarrow> same_ledger c w w2"
  by (simp add: same_ledger_def owned_def)

lemma apply_op_frame:
  assumes wf: "wf_registry mv w" and c: "c \<in> handles mv"
  shows "\<exists>w'. apply_op c x w = Inr w' \<and> wf_registry mv w'
           \<and> (\<forall>d \<in> handles mv. c \<noteq> d \<longrightarrow> same_ledger d w w')"
proof (cases x)
  case (MethodCall m y)
  from methodCall_effect[of c m y w] obtain w' where
    r: "methodCall c m y w = Inr w'"
    and cls: "cls_heap w' = (cls_heap w)
          (c := (cls_heap w c)
             \<lparr>verifiers := (verifiers (cls_heap w c))(key_of w c m \<mapsto> target w c m)\<rparr>)"
    and frame: "\<forall>q. q \<noteq> target w c m \<longrightarrow> mcv_heap w' q = mcv_heap w q"
    and nxt: "mcv_next w' =
         (case entry_of w c m of None \<Rightarrow> Suc (mcv_next w) | Some p \<Rightarrow> mcv_next w)"
    and cn: "cls_next w' = cls_next w"
    by blast
  from update_wf[OF wf c cls nxt cn] update_frame[OF wf c _ _ cls frame] r MethodCall
  show ?thesis by simp
next
  case (DupeMethod m h k)
  from dupeMethod_effect[of c m h k w] obtain w' where
    r: "dupeMethod c m h k w = Inr w'"
    and cls: "cls_heap w' = (cls_heap w)
          (c := (cls_heap w c)
             \<lparr>verifiers := (verifiers (cls_heap w c))(key_of w c m \<mapsto> target w c m)\<rparr>)"
    and frame: "\<forall>q. q \<noteq> target w c m \<longrightarrow> mcv_heap w' q = mcv_heap w q"
    and nxt: "mcv_next w' =
         (case entry_of w c m of None \<Rightarrow> Suc (mcv_next w) | Some p \<Rightarrow> mcv_next w)"
    and cn: "cls_next w' = cls_next w"
    by blast
  from update_wf[OF wf c cls nxt cn] update_frame[OF wf c _ _ cls frame] r DupeMethod
  show ?thesis by simp
next
  case (Verify m t)
  from verify_effect[of c m t w] obtain b w1 where
    r: "verify c m t w = Inr (b, w1)"
    and same: "mcv_heap w1 = mcv_heap w" "mcv_next w1 = mcv_next w"
      "cls_heap w1 = cls_heap w" "cls_next w1 = cls_next w"
    by blast
  from wf have "wf_registry mv w1"
    by (simp add: wf_registry_def owned_def same)
  moreover have "same_ledger d w w1" for d
    by (simp add: same_ledger_def same)
  ultimately show ?thesis using r Verify by simp
qed

lemma run_ops_frame:
  assumes c: "c \<in> handles mv" and d: "d \<in> handles mv" and ne: "c \<noteq> d"
  shows "wf_registry mv w \<Longrightarrow>
    \<exists>w'. run_ops c ops w = Inr w' \<and> wf_registry mv w' \<and> same_ledger d w w'"
proof (induction ops arbitrary: w)
  case Nil
  then show ?case by (simp add: same_ledger_refl)
next
  case (Cons x xs)
  from apply_op_frame[OF Cons.prems c, of x] d ne obtain w1 where
    s: "apply_op c x w = Inr w1" and wf1: "wf_registry mv w1" and l1: "same_ledger d w w1"
    by blast
  from Cons.IH[OF wf1] obtain w2 where
    r: "run_ops c xs w1 = Inr w2" and wf2: "wf_registry mv w2" and l2: "same_ledger d w1 w2"
    by blast
  from s r wf2 same_ledger_trans[OF l1 l2] show ?case by simp
qed

lemma getMock_registered:
  "mockedClass mv x = Some c \<Longrightarrow> getMock cn x mv w = Inr (c, mv, w)"
  by (simp add: getMock_def isMockRegistered_def)

lemma getMock_new:
  "mockedClass mv x = None \<Longrightarrow>
   getMock cn x mv w =
     Inr (cls_next w, mv\<lparr>mockedClass := (mockedClass mv)(x \<mapsto> cls_next w)\<rparr>,
          snd (make_shared_MockClassVerifier cn w))"
  by (simp add: getMock_def isMockRegistered_def addMock_def make_shared_MockClassVerifier_def)

lemma getDefaultMock_registered:
  "defaultMockedClass mv n = Some c \<Longrightarrow> getDefaultMock n mv w = Inr (c, mv, w)"
  by (simp add: getDefaultMock_def)

lemma getDefaultMock_new:
  "defaultMockedClass mv n = None \<Longrightarrow>
   getDefaultMock n mv w =
     Inr (cls_next w, mv\<lparr>defaultMockedClass := (defaultMockedClass mv)(n \<mapsto> cls_next w)\<rparr>,
          snd (make_shared_MockClassVerifier n w))"
  by (simp add: getDefaultMock_def addDefaultMock_def make_shared_MockClassVerifier_def)

lemma wf_new_class:
  assumes wf: "wf_registry mv w"
    and h: "handles mv' = insert (cls_next w) (handles mv)"
    and i1: "\<forall>x y c. mockedClass mv' x = Some c \<longrightarrow> mockedClass mv' y = Some c \<longrightarrow> x = y"
    and i2: "\<forall>x y c. defaultMockedClass mv' x = Some c \<longrightarrow> defaultMockedClass mv' y = Some c \<longrightarrow> x = y"
    and dj: "ran (mockedClass mv') \<inter> ran (defaultMockedClass mv') = {}"
  shows "wf_registry mv' (snd (make_shared_MockClassVerifier cn w))"
proof -
  let ?w = "snd (make_shared_MockClassVerifier cn w)"
  have old: "c < cls_next w" if "c \<in> handles mv" for c
    using wf that unfolding wf_registry_def by blast
  have o_new: "owned ?w (cls_next w) = {}"
    by (simp add: owned_def make_shared_MockClassVerifier_def)
  have o_old: "owned ?w c = owned w c" if "c \<in> handles mv" for c
    using old[OF that] by (simp add: owned_def make_shared_MockClassVerifier_def)
  have nx: "mcv_next ?w = mcv_next w" "cls_next ?w = Suc (cls_next w)"
    by (simp_all add: make_shared_MockClassVerifier_def)
  have a: "\<forall>c \<in> handles mv'. c < cls_next ?w"
    using old by (auto simp: h nx less_Suc_eq)
  have b: "\<forall>c \<in> handles mv'. \<forall>p \<in> owned ?w c. p < mcv_next ?w"
    using wf_owned_bound[OF wf] o_new o_old by (auto simp: h nx)
  have c: "\<forall>c \<in> handles mv'. \<forall>d \<in> handles mv'. c \<noteq> d \<longrightarrow> owned ?w c \<inter> owned ?w d = {}"
    using wf_owned_disjoint[OF wf] o_new o_old by (auto simp: h)
  from a b c i1 i2 dj show ?thesis
    unfolding wf_registry_def by blast
qed


lemma wf_handle_bound: "wf_registry mv w \<Longrightarrow> c \<in> handles mv \<Longrightarrow> c < cls_next w"
  unfolding wf_registry_def by blast

lemma getMock_wf:
  assumes wf: "wf_registry mv w" and g: "getMock cn x mv w = Inr (c, mv', w')"
  shows "wf_registry mv' w'"
    and "mockedClass mv' x = Some c"
    and "\<And>y c'. mockedClass mv y = Some c' \<Longrightarrow> mockedClass mv' y = Some c'"
    and "defaultMockedClass mv' = defaultMockedClass mv"
proof -
  have "wf_registry mv' w' \<and> mockedClass mv' x = Some c
      \<and> (\<forall>y c'. mockedClass mv y = Some c' \<longrightarrow> mockedClass mv' y = Some c')
      \<and> defaultMockedClass mv' = defaultMockedClass mv"
  proof (cases "mockedClass mv x")
    case (Some a)
    from g getMock_registered[OF Some, of cn w] wf Some show ?thesis by simp
  next
    case None
    let ?c = "cls_next w"
    from g getMock_new[OF None, of cn w]
    have c: "c = ?c" and mv': "mv' = mv\<lparr>mockedClass := (mockedClass mv)(x \<mapsto> ?c)\<rparr>"
      and w': "w' = snd (make_shared_MockClassVerifier cn w)"
      by auto
    have fresh: "?c \<notin> handles mv"
      using wf_handle_bound[OF wf, of ?c] by auto
    have h: "handles mv' = insert ?c (handles mv)"
      using None by (simp add: mv' handles_def)
    have i1: "\<forall>a b k. mockedClass mv' a = Some k \<longrightarrow> mockedClass mv' b = Some k \<longrightarrow> a = b"
    proof (intro allI impI)
      fix a b k assume p: "mockedClass mv' a = Some k" and q: "mockedClass mv' b = Some k"
      have in_old: "k \<in> handles mv" if "mockedClass mv y = Some k" for y
        using that by (auto simp: handles_def ran_def)
      from wf have inj: "mockedClass mv a = Some k \<Longrightarrow> mockedClass mv b = Some k \<Longrightarrow> a = b"
        unfolding wf_registry_def by blast
      from p q fresh in_old inj show "a = b"
        by (auto simp: mv' split: if_splits)
    qed
    have i2: "\<forall>a b k. defaultMockedClass mv' a = Some k \<longrightarrow> defaultMockedClass mv' b = Some k \<longrightarrow> a = b"
      using wf unfolding wf_registry_def by (simp add: mv')
    have "?c \<notin> ran (defaultMockedClass mv)"
      using fresh by (simp add: handles_def)
    moreover from wf have "ran (mockedClass mv) \<inter> ran (defaultMockedClass mv) = {}"
      unfolding wf_registry_def by blast
    ultimately have dj: "ran (mockedClass mv') \<inter> ran (defaultMockedClass mv') = {}"
      using None by (simp add: mv')
    from wf_new_class[OF wf h i1 i2 dj, of cn] None show ?thesis
      by (auto simp: w' c mv')
  qed
  then show "wf_registry mv' w'"
    and "mockedClass mv' x = Some c"
    and "\<And>y c'. mockedClass mv y = Some c' \<Longrightarrow> mockedClass mv' y = Some c'"
    and "defaultMockedClass mv' = defaultMockedClass mv"
    by blast+
qed

lemma getDefaultMock_wf:
  assumes wf: "wf_registry mv w" and g: "getDefaultMock n mv w = Inr (c, mv', w')"
  shows "wf_registry mv' w'"
    and "defaultMockedClass mv' n = Some c"
    and "\<And>y c'. defaultMockedClass mv y = Some c' \<Longrightarrow> defaultMockedClass mv' y = Some c'"
    and "mockedClass mv' = mockedClass mv"
proof -
  have "wf_registry mv' w' \<and> defaultMockedClass mv' n = Some c
      \<and> (\<forall>y c'. defaultMockedClass mv y = Some c' \<longrightarrow> defaultMockedClass mv' y = Some c')
      \<and> mockedClass mv' = mockedClass mv"
  proof (cases "defaultMockedClass mv n")
    case (Some a)
    from g getDefaultMock_registered[OF Some, of w] wf Some show ?thesis by simp
  next
    case None
    let ?c = "cls_next w"
    from g getDefaultMock_new[OF None, of w]
    have c: "c = ?c" and mv': "mv' = mv\<lparr>defaultMockedClass := (defaultMockedClass mv)(n \<mapsto> ?c)\<rparr>"
      and w': "w' = snd (make_shared_MockClassVerifier n w)"
      by auto
    have fresh: "?c \<notin> handles mv"
      using wf_handle_bound[OF wf, of ?c] by auto
    have h: "handles mv' = insert ?c (handles mv)"
      using None by (simp add: mv' handles_def)
    have i2: "\<forall>a b k. defaultMockedClass mv' a = Some k \<longrightarrow> defaultMockedClass mv' b = Some k \<longrightarrow> a = b"
    proof (intro allI impI)
      fix a b k assume p: "defaultMockedClass mv' a = Some k" and q: "defaultMockedClass mv' b = Some k"
      have in_old: "k \<in> handles mv" if "defaultMockedClass mv y = Some k" for y
        using that by (auto simp: handles_def ran_def)
      from wf have inj: "defaultMockedClass mv a = Some k \<Longrightarrow> defaultMockedClass mv b = Some k \<Longrightarrow> a = b"
        unfolding wf_registry_def by blast
      from p q fresh in_old inj show "a = b"
        by (auto simp: mv' split: if_splits)
    qed
    have i1: "\<forall>a b k. mockedClass mv' a = Some k \<longrightarrow> mockedClass mv' b = Some k \<longrightarrow> a = b"
      using wf unfolding wf_registry_def by (simp add: mv')
    have "?c \<notin> ran (mockedClass mv)"
      using fresh by (simp add: handles_def)
    moreover from wf have "ran (mockedClass mv) \<inter> ran (defaultMockedClass mv) = {}"
      unfolding wf_registry_def by blast
    ultimately have dj: "ran (mockedClass mv') \<inter> ran (defaultMockedClass mv') = {}"
      using None by (simp add: mv')
    from wf_new_class[OF wf h i1 i2 dj, of n] None show ?thesis
      by (auto simp: w' c mv')
  qed
  then show "wf_registry mv' w'"
    and "defaultMockedClass mv' n = Some c"
    and "\<And>y c'. defaultMockedClass mv y = Some c' \<Longrightarrow> defaultMockedClass mv' y = Some c'"
    and "mockedClass mv' = mockedClass mv"
    by blast+
qed

text \<open>Every state a registry can be in satisfies the invariant.\<close>

lemma reachable_wf: "reachable mv w \<Longrightarrow> wf_registry mv w"
proof (induction rule: reachable.induct)
  case (constructed w)
  show ?case by (rule wf_empty)
next
  case (lookup mv w cn x c mv' w')
  from getMock_wf(1)[OF lookup.IH lookup.hyps(2)] show ?case .
next
  case (lookup_default mv w cn c mv' w')
  from getDefaultMock_wf(1)[OF lookup_default.IH lookup_default.hyps(2)] show ?case .
next
  case (ledger_op mv w c x w')
  from apply_op_frame[OF ledger_op.IH ledger_op.hyps(2), of x] ledger_op.hyps(3)
  show ?case by auto
next
  case (invoke mv w c m arg w')
  from invokeDupedMethod_frame[OF invoke.hyps(3)]
  have e: "w' = w\<lparr>calls := calls w'\<rparr>" .
  have "mcv_heap w' = mcv_heap w" by (subst e) simp
  moreover have "mcv_next w' = mcv_next w" by (subst e) simp
  moreover have "cls_heap w' = cls_heap w" by (subst e) simp
  moreover have "cls_next w' = cls_next w" by (subst e) simp
  ultimately show ?case
    using invoke.IH by (simp add: wf_registry_def owned_def)
qed

text \<open>
  C9. In a registry that satisfies the invariant, look up two distinct identities \<open>A\<close>
  and \<open>B\<close> of a mocked type with \<^verbatim>\<open>getMock\<close>. Their class verifiers are distinct objects,
  and a \<^verbatim>\<open>methodCall\<close> on the one of \<open>A\<close> leaves the ledger of \<open>B\<close> as it was: every
  \<^verbatim>\<open>verify\<close> on \<open>B\<close> returns and writes what it did before.
\<close>

theorem distinct_instances_independent:
  assumes wf: "wf_registry mv w"
    and gA: "getMock cn A mv w = Inr (a, mv1, w1)"
    and gB: "getMock cn B mv1 w1 = Inr (b, mv2, w2)"
    and ne: "A \<noteq> B"
  shows "a \<noteq> b \<and>
         (\<exists>w3. methodCall a m x w2 = Inr w3 \<and> same_ledger b w2 w3
            \<and> (\<forall>m' t. verify_outcome b m' t w3 = verify_outcome b m' t w2))"
proof -
  note A = getMock_wf[OF wf gA]
  note B = getMock_wf[OF A(1) gB]
  have ra: "mockedClass mv2 A = Some a" by (rule B(3)[OF A(2)])
  have rb: "mockedClass mv2 B = Some b" by (rule B(2))
  from B(1) have "\<forall>x y c. mockedClass mv2 x = Some c \<longrightarrow> mockedClass mv2 y = Some c \<longrightarrow> x = y"
    unfolding wf_registry_def by blast
  with ra rb ne have ab: "a \<noteq> b" by blast
  have ha: "a \<in> handles mv2" and hb: "b \<in> handles mv2"
    using ra rb by (auto simp: handles_def ran_def)
  from apply_op_frame[OF B(1) ha, of "MethodCall m x"] hb ab obtain w3 where
    r: "methodCall a m x w2 = Inr w3" and l: "same_ledger b w2 w3"
    by auto
  from same_ledger_verify[OF l] r l ab show ?thesis by blast
qed

theorem distinct_instances_independent_witness:
  "\<exists>a mv1 w1 b mv2 w2 w3.
      getMock ''Foo'' 100 empty_MockVerifier init_world = Inr (a, mv1, w1)
    \<and> getMock ''Foo'' 200 mv1 w1 = Inr (b, mv2, w2)
    \<and> a \<noteq> b
    \<and> methodCall a ''bar'' 5 w2 = Inr w3 \<and> same_ledger b w2 w3
    \<and> (\<forall>m' t. verify_outcome b m' t w3 = verify_outcome b m' t w2)"
proof -
  have n1: "mockedClass empty_MockVerifier 100 = None"
    by (simp add: empty_MockVerifier_def)
  note g1 = getMock_new[OF n1, of "''Foo''" init_world]
  have n2: "mockedClass
      (empty_MockVerifier\<lparr>mockedClass := (mockedClass empty_MockVerifier)(100 \<mapsto> cls_next init_world)\<rparr>)
      200 = None"
    by (simp add: empty_MockVerifier_def)
  note g2 = getMock_new[OF n2, of "''Foo''" "snd (make_shared_MockClassVerifier ''Foo'' init_world)"]
  have ne: "(100 :: nat) \<noteq> 200" by simp
  from distinct_instances_independent[OF wf_empty g1 g2 ne, of "''bar''" 5] g1 g2
  show ?thesis by blast
qed

text \<open>
  C10. In a registry that satisfies the invariant, take the default verifier of a class
  name and the verifier of an identity of that class. They are distinct objects, and
  any sequence of \<^verbatim>\<open>methodCall\<close>, \<^verbatim>\<open>dupeMethod\<close> and \<^verbatim>\<open>verify\<close> calls on one of them
  leaves the ledger of the other as it was, in both directions: every \<^verbatim>\<open>verify\<close> on the
  other returns and writes what it did before.
\<close>

theorem default_and_instance_mocks_disjoint:
  assumes wf: "wf_registry mv w"
    and gD: "getDefaultMock cn mv w = Inr (d, mv1, w1)"
    and gI: "getMock cn p mv1 w1 = Inr (i, mv2, w2)"
  shows "d \<noteq> i \<and>
         (\<forall>ops. \<exists>w3. run_ops d ops w2 = Inr w3 \<and> same_ledger i w2 w3
            \<and> (\<forall>m t. verify_outcome i m t w3 = verify_outcome i m t w2)) \<and>
         (\<forall>ops. \<exists>w3. run_ops i ops w2 = Inr w3 \<and> same_ledger d w2 w3
            \<and> (\<forall>m t. verify_outcome d m t w3 = verify_outcome d m t w2))"
proof -
  note D = getDefaultMock_wf[OF wf gD]
  note I = getMock_wf[OF D(1) gI]
  have rd: "defaultMockedClass mv2 cn = Some d" using D(2) I(4) by simp
  have ri: "mockedClass mv2 p = Some i" by (rule I(2))
  have hd: "d \<in> handles mv2" and hi: "i \<in> handles mv2"
    using rd ri by (auto simp: handles_def ran_def)
  from I(1) have "ran (mockedClass mv2) \<inter> ran (defaultMockedClass mv2) = {}"
    unfolding wf_registry_def by blast
  with rd ri have di: "d \<noteq> i" by (auto simp: ran_def)
  have 1: "\<exists>w3. run_ops d ops w2 = Inr w3 \<and> same_ledger i w2 w3
            \<and> (\<forall>m t. verify_outcome i m t w3 = verify_outcome i m t w2)" for ops
    using run_ops_frame[OF hd hi di I(1), of ops] same_ledger_verify by blast
  have 2: "\<exists>w3. run_ops i ops w2 = Inr w3 \<and> same_ledger d w2 w3
            \<and> (\<forall>m t. verify_outcome d m t w3 = verify_outcome d m t w2)" for ops
    using run_ops_frame[OF hi hd di[symmetric] I(1), of ops] same_ledger_verify by blast
  from di 1 2 show ?thesis by blast
qed


theorem default_and_instance_mocks_disjoint_witness:
  "\<exists>d mv1 w1 i mv2 w2.
      getDefaultMock ''Foo'' empty_MockVerifier init_world = Inr (d, mv1, w1)
    \<and> getMock ''Foo'' 100 mv1 w1 = Inr (i, mv2, w2)
    \<and> d \<noteq> i
    \<and> (\<exists>w3. run_ops d example_history w2 = Inr w3 \<and> same_ledger i w2 w3
          \<and> verify_outcome i ''bar'' 0 w3 = verify_outcome i ''bar'' 0 w2)
    \<and> (\<exists>w3. run_ops i example_history w2 = Inr w3 \<and> same_ledger d w2 w3
          \<and> verify_outcome d ''bar'' 0 w3 = verify_outcome d ''bar'' 0 w2)"
proof -
  have n1: "defaultMockedClass empty_MockVerifier ''Foo'' = None"
    by (simp add: empty_MockVerifier_def)
  note g1 = getDefaultMock_new[OF n1, of init_world]
  have n2: "mockedClass
      (empty_MockVerifier\<lparr>defaultMockedClass :=
         (defaultMockedClass empty_MockVerifier)(''Foo'' \<mapsto> cls_next init_world)\<rparr>)
      100 = None"
    by (simp add: empty_MockVerifier_def)
  note g2 = getMock_new[OF n2, of "''Foo''" "snd (make_shared_MockClassVerifier ''Foo'' init_world)"]
  from default_and_instance_mocks_disjoint[OF wf_empty g1 g2] g1 g2
  show ?thesis by blast
qed


end
